theory Spec2Isabelle
  imports
    Main
    "HOL-Library.AList"
    "HOL-Library.Multiset"
    "HOL-Library.Char_ord"
    "HOL-Library.List_Lexorder"
    "HOL-Library.Product_Lexorder"
begin

section \<open>Python values\<close>

text \<open>
  The script \<^verbatim>\<open>list_all_ai_models.py\<close> works on parsed JSON and on the descriptors
  the provider SDKs hand back: dictionaries from strings to values of any JSON shape.
  A dictionary is an association list in insertion order (what \<^verbatim>\<open>json.dump\<close> prints);
  \<^verbatim>\<open>d[k] = v\<close> is \<open>AList.update\<close>, which overwrites in place or appends, and a look-up is
  \<open>map_of\<close>. Strings are byte lists (UTF-8); numbers are integers, which the script
  only stores and copies.
\<close>

datatype pyval =
    PNone
  | PBool bool
  | PInt int
  | PStr string
  | PList "pyval list"
  | PDict "(string \<times> pyval) list"

type_synonym pydict = "(string \<times> pyval) list"

datatype error = KeyError | TypeError | AttributeError | APIError | UnorderedKeys

text \<open>Truthiness, as \<^verbatim>\<open>x or y\<close> and \<^verbatim>\<open>not x\<close> test it.\<close>

fun py_truthy :: "pyval \<Rightarrow> bool" where
  "py_truthy PNone = False"
| "py_truthy (PBool b) = b"
| "py_truthy (PInt i) = (i \<noteq> 0)"
| "py_truthy (PStr s) = (s \<noteq> [])"
| "py_truthy (PList xs) = (xs \<noteq> [])"
| "py_truthy (PDict d) = (d \<noteq> [])"

text \<open>\<^verbatim>\<open>d.get(k, default)\<close> on a dictionary.\<close>

definition dict_get :: "pydict \<Rightarrow> string \<Rightarrow> pyval \<Rightarrow> pyval" where
  "dict_get d k dflt = (case map_of d k of None \<Rightarrow> dflt | Some v \<Rightarrow> v)"

text \<open>\<^verbatim>\<open>m[k]\<close> with a string key: only a dictionary holding the key answers.\<close>

fun subscript :: "pyval \<Rightarrow> string \<Rightarrow> error + pyval" where
  "subscript (PDict d) k = (case map_of d k of None \<Rightarrow> Inl KeyError | Some v \<Rightarrow> Inr v)"
| "subscript _ k = Inl TypeError"


text \<open>Lists and dictionaries cannot be hashed, so they cannot be part of a dictionary key.\<close>

fun hashable :: "pyval \<Rightarrow> bool" where
  "hashable (PList xs) = False"
| "hashable (PDict d) = False"
| "hashable _ = True"

section \<open>String operations\<close>

text \<open>
  \<^verbatim>\<open>str.lower\<close> and \<^verbatim>\<open>str.title\<close> are modelled on the ASCII letters, which is what
  provider model identifiers are made of; every other byte is left alone and counts as
  uncased.
\<close>

definition is_upper :: "char \<Rightarrow> bool" where
  "is_upper c = (65 \<le> (of_char c :: nat) \<and> (of_char c :: nat) \<le> 90)"

definition is_lower :: "char \<Rightarrow> bool" where
  "is_lower c = (97 \<le> (of_char c :: nat) \<and> (of_char c :: nat) \<le> 122)"

definition lower_char :: "char \<Rightarrow> char" where
  "lower_char c = (if is_upper c then char_of ((of_char c :: nat) + 32) else c)"

definition upper_char :: "char \<Rightarrow> char" where
  "upper_char c = (if is_lower c then char_of ((of_char c :: nat) - 32) else c)"

definition lower :: "string \<Rightarrow> string" where
  "lower s = map lower_char s"

definition startswith :: "string \<Rightarrow> string \<Rightarrow> bool" where
  "startswith s p = (take (length p) s = p)"

text \<open>\<^verbatim>\<open>sub in s\<close> for strings.\<close>

fun is_in :: "string \<Rightarrow> string \<Rightarrow> bool" where
  "is_in sub [] = (sub = [])"
| "is_in sub (c # cs) = (startswith (c # cs) sub \<or> is_in sub cs)"

text \<open>
  \<^verbatim>\<open>s.replace(old, new)\<close>: every non-overlapping occurrence, left to right. The counter
  is the number of characters of a matched occurrence still to be skipped. An empty
  \<open>old\<close> matches before every character and at the end.
\<close>

fun replace_from :: "string \<Rightarrow> string \<Rightarrow> nat \<Rightarrow> string \<Rightarrow> string" where
  "replace_from old new k [] = []"
| "replace_from old new (Suc k) (c # cs) = replace_from old new k cs"
| "replace_from old new 0 (c # cs) =
     (if startswith (c # cs) old then new @ replace_from old new (length old - 1) cs
      else c # replace_from old new 0 cs)"

definition replace :: "string \<Rightarrow> string \<Rightarrow> string \<Rightarrow> string" where
  "replace s old new =
     (if old = [] then new @ concat (map (\<lambda>c. c # new) s) else replace_from old new 0 s)"

text \<open>\<^verbatim>\<open>s.title()\<close>: a letter that follows a letter is lowered, any other letter is raised.\<close>

fun title_from :: "bool \<Rightarrow> string \<Rightarrow> string" where
  "title_from prev [] = []"
| "title_from prev (c # cs) =
     (if is_lower c then (if prev then c else upper_char c) # title_from True cs
      else if is_upper c then (if prev then lower_char c else c) # title_from True cs
      else c # title_from False cs)"

definition title :: "string \<Rightarrow> string" where
  "title s = title_from False s"

text \<open>
  \<^verbatim>\<open>re.search(r'exp.*(pro|advanced)', s)\<close>: somewhere \<open>exp\<close>, then any characters but a
  newline, then \<open>pro\<close> or \<open>advanced\<close>.
\<close>

fun dot_star_alt :: "string \<Rightarrow> bool" where
  "dot_star_alt [] = False"
| "dot_star_alt (c # cs) =
     (startswith (c # cs) ''pro'' \<or> startswith (c # cs) ''advanced''
      \<or> (c \<noteq> CHR 0x0A \<and> dot_star_alt cs))"

fun re_search_exp :: "string \<Rightarrow> bool" where
  "re_search_exp [] = False"
| "re_search_exp (c # cs) =
     ((startswith (c # cs) ''exp'' \<and> dot_star_alt (drop 2 cs)) \<or> re_search_exp cs)"

section \<open>The heuristic classifier\<close>

type_synonym caps = "(string \<times> bool) list"

definition flag_names :: "string list" where
  "flag_names = [''multiModal'', ''canSearch'', ''canGenerateImages'',
                 ''isAdvancedReasoner'', ''canAccessInternet'', ''supportsReasoning'']"

text \<open>The defaults of a new model (lines 68-75).\<close>

definition default_capabilities :: caps where
  "default_capabilities =
     [(''multiModal'', False), (''canSearch'', False), (''canGenerateImages'', False),
      (''isAdvancedReasoner'', False), (''canAccessInternet'', False),
      (''supportsReasoning'', True)]"

text \<open>\<^verbatim>\<open>capabilities[k] = v\<close>\<close>

definition setcap :: "string \<Rightarrow> bool \<Rightarrow> caps \<Rightarrow> caps" where
  "setcap k v c = AList.update k v c"

text \<open>The Google branch (lines 78-100); \<open>acts\<close> is \<^verbatim>\<open>supported_actions\<close>.\<close>

definition google_rules :: "string \<Rightarrow> string \<Rightarrow> pyval \<Rightarrow> caps \<Rightarrow> caps" where
  "google_rules mid nm acts c0 =
    (let c1 = (if is_in ''gemini'' mid \<or> is_in ''gemini'' nm then
                 (let d1 = setcap ''multiModal'' True c0;
                      d2 = (if is_in ''pro'' mid \<or> is_in ''ultra'' mid \<or> re_search_exp mid
                               \<or> is_in ''gemini-1.5'' mid \<or> is_in ''gemini-2.5'' mid
                            then setcap ''isAdvancedReasoner'' True d1 else d1)
                  in (if is_in ''flash'' mid \<and> \<not> (is_in ''2.5'' mid \<or> is_in ''exp'' mid)
                      then setcap ''isAdvancedReasoner'' False d2 else d2))
               else c0);
         c2 = (if is_in ''imagen'' mid then
                 setcap ''supportsReasoning'' False
                   (setcap ''canGenerateImages'' True (setcap ''multiModal'' True c1))
               else c1);
         c3 = (if \<not> py_truthy acts \<and> \<not> (is_in ''gemini'' mid \<or> is_in ''imagen'' mid)
               then setcap ''supportsReasoning'' False c2 else c2)
     in (if is_in ''gemini'' mid \<and>
            (is_in ''1.5'' mid \<or> is_in ''2.0'' mid \<or> is_in ''2.5'' mid
             \<or> is_in ''exp'' mid \<or> is_in ''preview'' mid)
         then (let e1 = setcap ''canAccessInternet'' True (setcap ''canSearch'' True c3)
               in (if is_in ''2.5'' mid \<or> is_in ''pro'' mid
                   then setcap ''canGenerateImages'' True e1 else e1))
         else c3))"

text \<open>The OpenAI branch (lines 105-129).\<close>

definition openai_rules :: "string \<Rightarrow> caps \<Rightarrow> caps" where
  "openai_rules mid c0 =
    (let c1 =
       (if startswith mid ''gpt-3.5'' then
          setcap ''isAdvancedReasoner'' False (setcap ''multiModal'' False c0)
        else if startswith mid ''gpt-4o'' then
          setcap ''isAdvancedReasoner'' (\<not> (is_in ''mini'' mid \<or> is_in ''nano'' mid))
            (setcap ''multiModal'' True c0)
        else if startswith mid ''gpt-4'' then
          setcap ''isAdvancedReasoner'' True
            (setcap ''multiModal''
               (is_in ''gpt-4o'' mid \<or> is_in ''4.1'' mid \<or> is_in ''4o'' mid) c0)
        else if startswith mid ''gpt-5'' then
          setcap ''isAdvancedReasoner'' True (setcap ''multiModal'' False c0)
        else if startswith mid ''o'' then
          setcap ''isAdvancedReasoner'' (True \<and> \<not> is_in ''mini'' mid)
            (setcap ''multiModal'' True c0)
        else c0)
     in (if startswith mid ''dall-e'' \<or> startswith mid ''gpt-image'' then
           setcap ''supportsReasoning'' False
             (setcap ''canGenerateImages'' True (setcap ''multiModal'' True c1))
         else c1))"

text \<open>The Anthropic branch (lines 133-146).\<close>

definition anthropic_rules :: "string \<Rightarrow> caps \<Rightarrow> caps" where
  "anthropic_rules mid c0 =
    (let c1 = (if is_in ''claude-3'' mid then setcap ''multiModal'' True c0 else c0);
         c2 = (if is_in ''opus'' mid \<or> is_in ''claude-3-5-sonnet'' mid
                  \<or> is_in ''claude-3.7-sonnet'' mid
               then setcap ''isAdvancedReasoner'' True c1
               else if is_in ''sonnet'' mid \<and> is_in ''claude-3'' mid
               then setcap ''isAdvancedReasoner'' True c1
               else if is_in ''haiku'' mid \<or> is_in ''instant'' mid
               then setcap ''isAdvancedReasoner'' False c1
               else c1)
     in (if is_in ''claude-3-5-sonnet'' mid \<or> is_in ''claude-3.7-sonnet'' mid then
           setcap ''canGenerateImages'' True
             (setcap ''canAccessInternet'' True (setcap ''canSearch'' True c2))
         else c2))"

text \<open>The provider dispatch (lines 77, 103, 132).\<close>

definition provider_rules :: "pyval \<Rightarrow> string \<Rightarrow> string \<Rightarrow> pydict \<Rightarrow> caps \<Rightarrow> caps" where
  "provider_rules provider_short_id mid nm api c =
    (if provider_short_id = PStr ''google'' then
       google_rules mid nm (dict_get api ''supportedActions'' (PList [])) c
     else if provider_short_id = PStr ''openai'' then openai_rules mid c
     else if provider_short_id = PStr ''anthropic'' then anthropic_rules mid c
     else c)"

text \<open>The closing normalisation (lines 148-149); \<^verbatim>\<open>capabilities[k]\<close> raises on a
  missing key.\<close>

definition normalize_caps :: "caps \<Rightarrow> error + caps" where
  "normalize_caps c =
    (case map_of c ''supportsReasoning'' of
       None \<Rightarrow> Inl KeyError
     | Some sr \<Rightarrow> Inr (if \<not> sr then setcap ''isAdvancedReasoner'' False c else c))"

text \<open>
  \<^verbatim>\<open>apply_heuristics_for_new_model(model_id, display_name, provider_short_id, api_data)\<close>.
  \<^verbatim>\<open>.lower()\<close> exists on strings only, so a \<open>model_id\<close> that is not a string, or a
  truthy \<open>display_name\<close> that is not one, raises \<open>AttributeError\<close>. The optional
  \<open>api_data\<close> is \<open>None\<close> when the caller leaves it out.
\<close>

definition apply_heuristics_for_new_model ::
  "pyval \<Rightarrow> pyval \<Rightarrow> pyval \<Rightarrow> pydict option \<Rightarrow> error + caps" where
  "apply_heuristics_for_new_model model_id display_name provider_short_id api_data =
    (let api = (case api_data of None \<Rightarrow> [] | Some d \<Rightarrow> d) in
     case model_id of
       PStr m \<Rightarrow>
         (case (if py_truthy display_name then display_name else model_id) of
            PStr n \<Rightarrow>
              normalize_caps
                (provider_rules provider_short_id (lower m) (lower n) api default_capabilities)
          | _ \<Rightarrow> Inl AttributeError)
     | _ \<Rightarrow> Inl AttributeError)"

section \<open>Fetching and transforming\<close>

text \<open>
  A raw fetcher (\<^verbatim>\<open>raw_fetch_google\<close> and its siblings) either raises or returns a list
  of descriptor dictionaries; that outcome is the input here. \<open>transform_one\<close> is the body
  of the loop of \<^verbatim>\<open>fetch_and_transform_models\<close> (lines 160-180): it builds the candidate
  record of one descriptor or raises.
\<close>

definition derive_name :: "string \<Rightarrow> pyval \<Rightarrow> pyval \<Rightarrow> error + pyval" where
  "derive_name provider_short_id model_id display_name_from_api =
    (if provider_short_id = ''openai'' then
       (case model_id of
          PStr m \<Rightarrow>
            (if \<not> startswith m ''dall-e'' \<and> model_id = display_name_from_api then
               (let n1 = title (replace (replace m ''-'' '' '') ''_'' '' '');
                    n2 = (if is_in ''Gpt'' n1 then replace n1 ''Gpt'' ''GPT'' else n1);
                    n3 = (if is_in '' Dall E'' n2
                          then replace n2 '' Dall E'' ('' DALL'' @ [CHR 0xC2, CHR 0xB7] @ ''E'')
                          else n2)
                in Inr (PStr n3))
             else Inr display_name_from_api)
        | _ \<Rightarrow> Inl AttributeError)
     else if provider_short_id = ''google'' then
       (case model_id of
          PStr m \<Rightarrow>
            (if startswith m ''models/'' then
               (case display_name_from_api of
                  PStr d \<Rightarrow> Inr (PStr (title (replace (replace d ''models/'' []) ''-'' '' '')))
                | _ \<Rightarrow> Inl AttributeError)
             else Inr display_name_from_api)
        | _ \<Rightarrow> Inl AttributeError)
     else Inr display_name_from_api)"

text \<open>The dictionary display of lines 172-179: four fields, then \<^verbatim>\<open>**capabilities\<close>.\<close>

definition schema_entry :: "pyval \<Rightarrow> string \<Rightarrow> string \<Rightarrow> pyval \<Rightarrow> caps \<Rightarrow> pydict" where
  "schema_entry model_id provider_name provider_short_id nm c =
     foldl (\<lambda>d kv. AList.update (fst kv) (PBool (snd kv)) d)
       [(''id'', model_id), (''provider'', PStr provider_name),
        (''providerId'', PStr provider_short_id), (''name'', nm)] c"

definition transform_one :: "string \<Rightarrow> string \<Rightarrow> pydict \<Rightarrow> error + pydict" where
  "transform_one provider_name provider_short_id api_model_data =
    (let model_id = dict_get api_model_data ''id''
                      (PStr (''unknown_'' @ provider_short_id @ ''_id''));
         display_name_from_api = dict_get api_model_data ''displayName'' model_id
     in case derive_name provider_short_id model_id display_name_from_api of
          Inl e \<Rightarrow> Inl e
        | Inr nm \<Rightarrow>
            (case apply_heuristics_for_new_model model_id nm (PStr provider_short_id)
                    (Some api_model_data) of
               Inl e \<Rightarrow> Inl e
             | Inr c \<Rightarrow> Inr (schema_entry model_id provider_name provider_short_id nm c)))"

text \<open>
  The loop appends to \<^verbatim>\<open>transformed_models\<close>; the \<^verbatim>\<open>except\<close> clause (line 183) ends it
  at the first descriptor that raises, and line 186 returns what was appended so far.
\<close>

fun transform_loop :: "string \<Rightarrow> string \<Rightarrow> pydict list \<Rightarrow> pydict list" where
  "transform_loop provider_name provider_short_id [] = []"
| "transform_loop provider_name provider_short_id (d # ds) =
     (case transform_one provider_name provider_short_id d of
        Inl e \<Rightarrow> []
      | Inr entry \<Rightarrow> entry # transform_loop provider_name provider_short_id ds)"

definition fetch_and_transform_models ::
  "(error + pydict list) \<Rightarrow> string \<Rightarrow> string \<Rightarrow> pydict list" where
  "fetch_and_transform_models fetch_function provider_name provider_short_id =
    (case fetch_function of
       Inl e \<Rightarrow> []
     | Inr raw_api_models \<Rightarrow> transform_loop provider_name provider_short_id raw_api_models)"

section \<open>The run\<close>

text \<open>
  Everything \<^verbatim>\<open>main\<close> reads from outside: the catalog file, the outcome of each raw
  fetcher, the two environment toggles, the answer of the image probe for a model id, and
  whether the final write goes through.
\<close>

datatype catalog_file = Missing | Unreadable | Parsed pyval

record env =
  catalog :: catalog_file
  raw_fetch_google :: "error + pydict list"
  raw_fetch_openai :: "error + pydict list"
  raw_fetch_anthropic :: "error + pydict list"
  refresh_caps :: bool
  enable_openai_probes :: bool
  probe_openai_model_supports_image :: "pyval \<Rightarrow> bool"
  write_succeeds :: bool

definition managed_provider_ids :: "pyval list" where
  "managed_provider_ids = [PStr ''google'', PStr ''openai'', PStr ''anthropic'']"


type_synonym model_map = "pyval \<times> pyval \<rightharpoonup> pydict"

text \<open>
  The dictionary comprehension of lines 284-287, later entries overwriting earlier ones.
  The dictionary is only ever consulted at keys made of two strings (line 305), where
  Python's equality of keys is equality of values.
\<close>

fun existing_managed_models :: "pyval list \<Rightarrow> model_map \<Rightarrow> error + model_map" where
  "existing_managed_models [] acc = Inr acc"
| "existing_managed_models (PDict d # ms) acc =
     (case map_of d ''providerId'' of
        None \<Rightarrow> Inl KeyError
      | Some p \<Rightarrow>
          (if p \<in> set managed_provider_ids then
             (case map_of d ''id'' of
                None \<Rightarrow> Inl KeyError
              | Some i \<Rightarrow>
                  (if hashable i then existing_managed_models ms (acc((p, i) \<mapsto> d))
                   else Inl TypeError))
           else existing_managed_models ms acc))"
| "existing_managed_models (m # ms) acc = Inl TypeError"


text \<open>Lines 296-299.\<close>

definition all_fetched_api_models :: "env \<Rightarrow> pydict list" where
  "all_fetched_api_models e =
     fetch_and_transform_models (raw_fetch_google e) ''Google Generative AI'' ''google''
     @ fetch_and_transform_models (raw_fetch_openai e) ''OpenAI'' ''openai''
     @ fetch_and_transform_models (raw_fetch_anthropic e) ''Anthropic'' ''anthropic''"

text \<open>
  The loop over the six flags (lines 312-316) on \<^verbatim>\<open>updated_entry\<close>, here \<open>u\<close>.
\<close>

fun merge_flags :: "bool \<Rightarrow> pydict \<Rightarrow> pydict \<Rightarrow> string list \<Rightarrow> pydict \<Rightarrow> error + pydict" where
  "merge_flags refresh existing_model_entry fetched_model [] u = Inr u"
| "merge_flags refresh existing_model_entry fetched_model (flag # flags) u =
     (if \<not> refresh \<and> flag \<in> fst ` set existing_model_entry then
        (case map_of existing_model_entry flag of
           None \<Rightarrow> Inl KeyError
         | Some v \<Rightarrow>
             merge_flags refresh existing_model_entry fetched_model flags
               (AList.update flag v u))
      else if flag \<notin> fst ` set u then
        (case (map_of fetched_model ''id'', map_of fetched_model ''name'',
               map_of fetched_model ''providerId'') of
           (Some i, Some n, Some p) \<Rightarrow>
             (case apply_heuristics_for_new_model i n p None of
                Inl e \<Rightarrow> Inl e
              | Inr c \<Rightarrow>
                  merge_flags refresh existing_model_entry fetched_model flags
                    (AList.update flag
                       (case map_of c flag of None \<Rightarrow> PBool False | Some b \<Rightarrow> PBool b) u))
         | _ \<Rightarrow> Inl KeyError)
      else merge_flags refresh existing_model_entry fetched_model flags u)"

text \<open>
  The merge loop (lines 304-323). The result is \<^verbatim>\<open>updated_managed_models_list\<close>; the
  dictionary of existing records loses every key that was matched (line 320).
\<close>

fun merge_loop :: "bool \<Rightarrow> pydict list \<Rightarrow> model_map \<Rightarrow> error + pydict list" where
  "merge_loop refresh [] existing = Inr []"
| "merge_loop refresh (fetched_model # fs) existing =
     (case (map_of fetched_model ''providerId'', map_of fetched_model ''id'') of
        (Some p, Some i) \<Rightarrow>
          (case existing (p, i) of
             Some existing_model_entry \<Rightarrow>
               (case merge_flags refresh existing_model_entry fetched_model flag_names
                       fetched_model of
                  Inl e \<Rightarrow> Inl e
                | Inr updated_entry \<Rightarrow>
                    (case merge_loop refresh fs (existing((p, i) := None)) of
                       Inl e \<Rightarrow> Inl e
                     | Inr rest \<Rightarrow> Inr (updated_entry # rest)))
           | None \<Rightarrow>
               (case merge_loop refresh fs existing of
                  Inl e \<Rightarrow> Inl e
                | Inr rest \<Rightarrow> Inr (fetched_model # rest)))
      | _ \<Rightarrow> Inl KeyError)"



text \<open>
  The sort of lines 345-348. The key \<^verbatim>\<open>(x["providerId"], x["id"])\<close> is computed for every
  record first. Keys made of two strings are ordered as Python orders tuples of strings
  (lexicographically, by code point), and the sort is stable. With at most one record
  nothing is compared. For two or more records whose keys are not all pairs of strings,
  whether Python raises \<open>TypeError\<close> depends on which keys its sort happens to compare;
  that case is not modelled and is reported as \<open>UnorderedKeys\<close>.
\<close>

definition record_key :: "pydict \<Rightarrow> error + pyval \<times> pyval" where
  "record_key x =
    (case map_of x ''providerId'' of
       None \<Rightarrow> Inl KeyError
     | Some p \<Rightarrow> (case map_of x ''id'' of None \<Rightarrow> Inl KeyError | Some i \<Rightarrow> Inr (p, i)))"





text \<open>
  Step 5: the write sits in a \<^verbatim>\<open>try\<close> whose \<^verbatim>\<open>except Exception\<close> only prints. The result
  of a run is the list handed to the writer and whether the file was written.
\<close>

record run_result =
  models :: "pydict list"
  written :: bool


section \<open>Predicates and sample inputs of the statements\<close>

text \<open>The fields of a candidate record, in the order of lines 172-179.\<close>

definition candidate_keys :: "string list" where
  "candidate_keys = [''id'', ''provider'', ''providerId'', ''name''] @ flag_names"

text \<open>
  What \<open>transform_one\<close> builds for a provider: the ten fields in order, a string \<open>id\<close>,
  the provider's short id, Boolean flags, and the classifier's closing normalisation.
\<close>

definition cand :: "string \<Rightarrow> pydict \<Rightarrow> bool" where
  "cand ps r \<longleftrightarrow>
     map fst r = candidate_keys \<and>
     (\<exists>m. map_of r ''id'' = Some (PStr m)) \<and>
     map_of r ''providerId'' = Some (PStr ps) \<and>
     (\<forall>f \<in> set flag_names. \<exists>b. map_of r f = Some (PBool b)) \<and>
     (map_of r ''supportsReasoning'' = Some (PBool False)
        \<longrightarrow> map_of r ''isAdvancedReasoner'' = Some (PBool False))"

text \<open>A candidate of one of the three managed providers.\<close>

definition mcand :: "pydict \<Rightarrow> bool" where
  "mcand r \<longleftrightarrow> (\<exists>ps. PStr ps \<in> set managed_provider_ids \<and> cand ps r)"

text \<open>Descriptors as \<^verbatim>\<open>raw_fetch_google\<close> builds them; the second has no display name.\<close>

definition gemini_descriptor :: pydict where
  "gemini_descriptor =
     [(''id'', PStr ''models/gemini-1.5-pro''), (''displayName'', PStr ''Gemini 1.5 Pro''),
      (''description'', PNone), (''version'', PStr ''001''),
      (''supportedActions'', PList [PStr ''generateContent''])]"

definition unnamed_descriptor :: pydict where
  "unnamed_descriptor =
     [(''id'', PStr ''models/embedding-001''), (''displayName'', PNone),
      (''description'', PNone), (''version'', PStr ''001''),
      (''supportedActions'', PList [PStr ''embedContent''])]"

definition env_google_down :: env where
  "env_google_down =
     \<lparr>catalog = Missing, raw_fetch_google = Inl APIError,
      raw_fetch_openai = Inr [[(''id'', PStr ''gpt-4o''), (''displayName'', PStr ''gpt-4o'')]],
      raw_fetch_anthropic = Inr [], refresh_caps = False, enable_openai_probes = False,
      probe_openai_model_supports_image = (\<lambda>i. False), write_succeeds = True\<rparr>"

text \<open>
  A hand-curated catalog record that defines two of the six flags, and a fetch that lists
  its id twice.
\<close>

definition prior_gpt4o :: pydict where
  "prior_gpt4o =
     [(''id'', PStr ''gpt-4o''), (''provider'', PStr ''OpenAI''), (''providerId'', PStr ''openai''),
      (''name'', PStr ''GPT-4o (curated)''), (''multiModal'', PBool False),
      (''canSearch'', PBool True)]"

definition openai_gpt4o_descriptor :: pydict where
  "openai_gpt4o_descriptor = [(''id'', PStr ''gpt-4o''), (''displayName'', PStr ''gpt-4o'')]"

definition env_duplicate :: env where
  "env_duplicate =
     \<lparr>catalog = Parsed (PDict [(''models'', PList [PDict prior_gpt4o])]),
      raw_fetch_google = Inr [],
      raw_fetch_openai = Inr [openai_gpt4o_descriptor, openai_gpt4o_descriptor],
      raw_fetch_anthropic = Inr [], refresh_caps = False, enable_openai_probes = False,
      probe_openai_model_supports_image = (\<lambda>i. False), write_succeeds = True\<rparr>"






















section \<open>The classifier: keys and normalisation\<close>

lemma setcap_keys: "k \<in> set (map fst c) \<Longrightarrow> map fst (setcap k v c) = map fst c"
  by (simp add: setcap_def update_keys)

lemma setcap_flag_keys:
  "map fst c = flag_names \<Longrightarrow> k \<in> set flag_names \<Longrightarrow> map fst (setcap k v c) = flag_names"
  using setcap_keys [of k c v] by simp

lemma flag_names_mem [simp]:
  "''multiModal'' \<in> set flag_names" "''canSearch'' \<in> set flag_names"
  "''canGenerateImages'' \<in> set flag_names" "''isAdvancedReasoner'' \<in> set flag_names"
  "''canAccessInternet'' \<in> set flag_names" "''supportsReasoning'' \<in> set flag_names"
  by (simp_all add: flag_names_def)

lemma google_rules_keys:
  "map fst c = flag_names \<Longrightarrow> map fst (google_rules mid nm acts c) = flag_names"
  by (simp add: google_rules_def Let_def setcap_flag_keys)

lemma openai_rules_keys:
  "map fst c = flag_names \<Longrightarrow> map fst (openai_rules mid c) = flag_names"
  by (simp add: openai_rules_def Let_def setcap_flag_keys)

lemma anthropic_rules_keys:
  "map fst c = flag_names \<Longrightarrow> map fst (anthropic_rules mid c) = flag_names"
  by (simp add: anthropic_rules_def Let_def setcap_flag_keys)

lemma default_capabilities_keys: "map fst default_capabilities = flag_names"
  by (simp add: default_capabilities_def flag_names_def)

lemma provider_rules_keys:
  "map fst c = flag_names \<Longrightarrow> map fst (provider_rules p mid nm api c) = flag_names"
  by (simp add: provider_rules_def google_rules_keys openai_rules_keys anthropic_rules_keys)

lemma normalize_caps_keys:
  "map fst c = flag_names \<Longrightarrow> \<exists>c'. normalize_caps c = Inr c' \<and> map fst c' = flag_names"
proof -
  assume k: "map fst c = flag_names"
  have "''supportsReasoning'' \<in> fst ` set c"
    using k flag_names_mem(6) by (metis list.set_map)
  then obtain sr where "map_of c ''supportsReasoning'' = Some sr"
    by (metis domD dom_map_of_conv_image_fst)
  then show ?thesis
    using k by (simp add: normalize_caps_def setcap_flag_keys)
qed

lemma normalize_caps_post:
  "normalize_caps c = Inr c' \<Longrightarrow> map_of c' ''supportsReasoning'' = Some False
     \<Longrightarrow> map_of c' ''isAdvancedReasoner'' = Some False"
  by (auto simp: normalize_caps_def setcap_def update_conv' split: option.splits if_splits)

lemma apply_heuristics_keys:
  assumes "apply_heuristics_for_new_model i n p api = Inr c"
  shows "map fst c = flag_names"
proof -
  from assms obtain c0 where n: "normalize_caps c0 = Inr c" and k: "map fst c0 = flag_names"
    by (auto simp: apply_heuristics_for_new_model_def Let_def provider_rules_keys
        default_capabilities_keys split: pyval.splits)
  from normalize_caps_keys [OF k] n show ?thesis by auto
qed

lemma apply_heuristics_post:
  assumes "apply_heuristics_for_new_model i n p api = Inr c"
    and "map_of c ''supportsReasoning'' = Some False"
  shows "map_of c ''isAdvancedReasoner'' = Some False"
proof -
  from assms(1) obtain c0 where n: "normalize_caps c0 = Inr c"
    by (auto simp: apply_heuristics_for_new_model_def Let_def split: pyval.splits)
  from normalize_caps_post [OF n assms(2)] show ?thesis .
qed


section \<open>Fetched candidates\<close>

lemma foldl_update_fresh:
  "distinct (map fst c) \<Longrightarrow> set (map fst c) \<inter> set (map fst d) = {} \<Longrightarrow>
   foldl (\<lambda>d kv. AList.update (fst kv) (PBool (snd kv)) d) d c
     = d @ map (\<lambda>kv. (fst kv, PBool (snd kv))) c"
proof (induction c arbitrary: d)
  case Nil
  then show ?case by simp
next
  case (Cons a c)
  have fresh: "fst a \<notin> fst ` set d" using Cons.prems(2) by auto
  have u: "AList.update (fst a) (PBool (snd a)) d = d @ [(fst a, PBool (snd a))]"
    using fresh by (induction d) auto
  have "set (map fst c) \<inter> set (map fst (d @ [(fst a, PBool (snd a))])) = {}"
    using Cons.prems by auto
  with Cons.IH [of "d @ [(fst a, PBool (snd a))]"] Cons.prems(1) u show ?case by simp
qed

lemma schema_entry_eq:
  assumes "map fst c = flag_names"
  shows "schema_entry i pn ps nm c =
     [(''id'', i), (''provider'', PStr pn), (''providerId'', PStr ps), (''name'', nm)]
       @ map (\<lambda>kv. (fst kv, PBool (snd kv))) c"
  unfolding schema_entry_def
  by (rule foldl_update_fresh) (simp_all add: assms, simp_all add: flag_names_def)

lemma map_of_PBool:
  "map_of (map (\<lambda>kv. (fst kv, PBool (snd kv))) c) k = map_option PBool (map_of c k)"
  by (induction c) auto

lemma apply_heuristics_str:
  "apply_heuristics_for_new_model i n p api = Inr c \<Longrightarrow> \<exists>m. i = PStr m"
  by (auto simp: apply_heuristics_for_new_model_def Let_def split: pyval.splits)

lemma transform_one_cand:
  assumes "transform_one pn ps d = Inr r"
  shows "cand ps r"
proof -
  from assms obtain i nm c where
    h: "apply_heuristics_for_new_model i nm (PStr ps) (Some d) = Inr c"
    and r: "r = schema_entry i pn ps nm c"
    by (auto simp: transform_one_def Let_def split: sum.splits)
  have k: "map fst c = flag_names" by (rule apply_heuristics_keys [OF h])
  obtain m where m: "i = PStr m" using apply_heuristics_str [OF h] by auto
  have r': "r = [(''id'', i), (''provider'', PStr pn), (''providerId'', PStr ps), (''name'', nm)]
       @ map (\<lambda>kv. (fst kv, PBool (snd kv))) c"
    using r schema_entry_eq [OF k] by simp
  have keys: "map fst r = candidate_keys"
    using k by (simp add: r' candidate_keys_def comp_def)
  have fl: "map_of r f = map_option PBool (map_of c f)" if "f \<in> set flag_names" for f
    using that by (auto simp: r' map_of_PBool flag_names_def)
  have dom: "\<exists>b. map_of c f = Some b" if "f \<in> set flag_names" for f
  proof -
    have "f \<in> fst ` set c" using that k by (metis list.set_map)
    then show ?thesis by (metis domD dom_map_of_conv_image_fst)
  qed
  have post: "map_of r ''supportsReasoning'' = Some (PBool False)
        \<longrightarrow> map_of r ''isAdvancedReasoner'' = Some (PBool False)"
    using apply_heuristics_post [OF h] by (auto simp: fl)
  show ?thesis
    unfolding cand_def
    using keys post dom by (auto simp: fl) (simp_all add: r' m)
qed

lemma transform_loop_cand: "x \<in> set (transform_loop pn ps ds) \<Longrightarrow> cand ps x"
  by (induction ds) (auto split: sum.splits dest: transform_one_cand [OF sym] transform_one_cand)

lemma fetch_and_transform_cand:
  "x \<in> set (fetch_and_transform_models f pn ps) \<Longrightarrow> cand ps x"
  by (auto simp: fetch_and_transform_models_def split: sum.splits dest: transform_loop_cand)

lemma all_fetched_mcand: "x \<in> set (all_fetched_api_models e) \<Longrightarrow> mcand x"
  by (auto simp: all_fetched_api_models_def mcand_def managed_provider_ids_def
      dest: fetch_and_transform_cand)

section \<open>Failures while fetching and transforming\<close>

lemma transform_loop_cut:
  "transform_one pn ps d = Inl err \<Longrightarrow>
   transform_loop pn ps (ds @ d # rest) = transform_loop pn ps ds"
  by (induction ds) (auto split: sum.splits)

lemma transform_loop_all:
  "\<forall>d \<in> set ds. \<not> isl (transform_one pn ps d) \<Longrightarrow>
   map Inr (transform_loop pn ps ds) = map (transform_one pn ps) ds"
  by (induction ds) (auto split: sum.splits)

text \<open>
  Claim C3, as the code has it. When the raw fetcher raises, the provider contributes the
  empty list. When a descriptor raises while it is transformed, the loop stops there: the
  provider contributes the candidates of the descriptors before it (a partial list, empty
  only if the first descriptor failed), and nothing of the failing descriptor or of those
  after it. When no descriptor raises, every descriptor contributes its candidate. In each
  case \<open>fetch_and_transform_models\<close> returns a list, and the fetched list of the run is the
  concatenation of what the other providers contribute.
\<close>

theorem fetch_and_transform_failure:
  "fetch_and_transform_models (Inl err) pn ps = [] \<and>
   (transform_one pn ps d = Inl err' \<longrightarrow>
      fetch_and_transform_models (Inr (ds @ d # rest)) pn ps
        = fetch_and_transform_models (Inr ds) pn ps) \<and>
   ((\<forall>d \<in> set ds. \<not> isl (transform_one pn ps d)) \<longrightarrow>
      map Inr (fetch_and_transform_models (Inr ds) pn ps) = map (transform_one pn ps) ds) \<and>
   (raw_fetch_google e = Inl err \<longrightarrow>
      all_fetched_api_models e =
        fetch_and_transform_models (raw_fetch_openai e) ''OpenAI'' ''openai''
        @ fetch_and_transform_models (raw_fetch_anthropic e) ''Anthropic'' ''anthropic'') \<and>
   (raw_fetch_openai e = Inl err \<longrightarrow>
      all_fetched_api_models e =
        fetch_and_transform_models (raw_fetch_google e) ''Google Generative AI'' ''google''
        @ fetch_and_transform_models (raw_fetch_anthropic e) ''Anthropic'' ''anthropic'') \<and>
   (raw_fetch_anthropic e = Inl err \<longrightarrow>
      all_fetched_api_models e =
        fetch_and_transform_models (raw_fetch_google e) ''Google Generative AI'' ''google''
        @ fetch_and_transform_models (raw_fetch_openai e) ''OpenAI'' ''openai'')"
  by (simp add: fetch_and_transform_models_def all_fetched_api_models_def
      transform_loop_cut transform_loop_all)

text \<open>
  Claim C3 as stated fails: a Google descriptor without a display name raises in the
  transformation, after the candidate of the descriptor before it was appended, and the
  provider's list is not empty.
\<close>

theorem fetch_and_transform_partial_counterexample:
  "transform_one ''Google Generative AI'' ''google'' unnamed_descriptor = Inl AttributeError \<and>
   fetch_and_transform_models (Inr [gemini_descriptor, unnamed_descriptor])
     ''Google Generative AI'' ''google'' \<noteq> []"
  by code_simp

theorem fetch_and_transform_failure_witness:
  "transform_one ''Google Generative AI'' ''google'' unnamed_descriptor = Inl AttributeError \<and>
   fetch_and_transform_models (Inr ([gemini_descriptor] @ unnamed_descriptor # [gemini_descriptor]))
       ''Google Generative AI'' ''google''
     = fetch_and_transform_models (Inr [gemini_descriptor]) ''Google Generative AI'' ''google'' \<and>
   \<not> isl (transform_one ''Google Generative AI'' ''google'' gemini_descriptor) \<and>
   map Inr (fetch_and_transform_models (Inr [gemini_descriptor]) ''Google Generative AI'' ''google'')
     = map (transform_one ''Google Generative AI'' ''google'') [gemini_descriptor] \<and>
   raw_fetch_google env_google_down = Inl APIError \<and>
   all_fetched_api_models env_google_down =
        fetch_and_transform_models (raw_fetch_openai env_google_down) ''OpenAI'' ''openai''
        @ fetch_and_transform_models (raw_fetch_anthropic env_google_down) ''Anthropic'' ''anthropic''"
proof -
  have a: "transform_one ''Google Generative AI'' ''google'' unnamed_descriptor = Inl AttributeError"
    by code_simp
  have b: "\<not> isl (transform_one ''Google Generative AI'' ''google'' gemini_descriptor)"
    by code_simp
  have c: "raw_fetch_google env_google_down = Inl APIError"
    by (simp add: env_google_down_def)
  show ?thesis
    using a b c
      fetch_and_transform_failure [of APIError "''Google Generative AI''" "''google''"
        unnamed_descriptor AttributeError "[gemini_descriptor]" "[gemini_descriptor]"
        env_google_down]
    by simp
qed

section \<open>The merge loop\<close>

lemma in_keys_map_of: "k \<in> fst ` set al \<Longrightarrow> \<exists>v. map_of al k = Some v"
  by (metis domD dom_map_of_conv_image_fst)

lemma merge_flags_ok:
  "set flags \<subseteq> fst ` set u \<Longrightarrow>
   \<exists>u'. merge_flags refresh ex f flags u = Inr u' \<and> map fst u' = map fst u \<and>
     (\<forall>k. map_of u' k =
        (if k \<in> set flags \<and> \<not> refresh \<and> k \<in> fst ` set ex then map_of ex k else map_of u k))"
proof (induction flags arbitrary: u)
  case Nil
  then show ?case by simp
next
  case (Cons flag flags)
  have fu: "flag \<in> fst ` set u" and rest: "set flags \<subseteq> fst ` set u"
    using Cons.prems by auto
  show ?case
  proof (cases "\<not> refresh \<and> flag \<in> fst ` set ex")
    case True
    then obtain v where v: "map_of ex flag = Some v" using in_keys_map_of by fastforce
    let ?u1 = "AList.update flag v u"
    have k1: "map fst ?u1 = map fst u"
      using fu by (simp add: update_keys)
    have "set flags \<subseteq> fst ` set ?u1" using rest by (simp add: dom_update) blast
    from Cons.IH [OF this] obtain u' where
      u': "merge_flags refresh ex f flags ?u1 = Inr u'" "map fst u' = map fst ?u1"
      "\<forall>k. map_of u' k =
        (if k \<in> set flags \<and> \<not> refresh \<and> k \<in> fst ` set ex then map_of ex k else map_of ?u1 k)"
      by blast
    have "merge_flags refresh ex f (flag # flags) u = Inr u'"
      using True v u'(1) by simp
    moreover have "map fst u' = map fst u" using u'(2) k1 by simp
    moreover have "\<forall>k. map_of u' k =
        (if k \<in> set (flag # flags) \<and> \<not> refresh \<and> k \<in> fst ` set ex
         then map_of ex k else map_of u k)"
      using u'(3) True v by (auto simp: update_conv')
    ultimately show ?thesis by blast
  next
    case False
    from Cons.IH [OF rest] obtain u' where
      u': "merge_flags refresh ex f flags u = Inr u'" "map fst u' = map fst u"
      "\<forall>k. map_of u' k =
        (if k \<in> set flags \<and> \<not> refresh \<and> k \<in> fst ` set ex then map_of ex k else map_of u k)"
      by blast
    have "merge_flags refresh ex f (flag # flags) u = Inr u'"
      using False fu u'(1) by auto
    moreover have "\<forall>k. map_of u' k =
        (if k \<in> set (flag # flags) \<and> \<not> refresh \<and> k \<in> fst ` set ex
         then map_of ex k else map_of u k)"
      using u'(3) False by auto
    ultimately show ?thesis using u'(2) by blast
  qed
qed

lemma cand_flags_present: "cand ps r \<Longrightarrow> set flag_names \<subseteq> fst ` set r"
proof -
  assume "cand ps r"
  then have "map fst r = candidate_keys" by (simp add: cand_def)
  then have "fst ` set r = set candidate_keys" by (metis list.set_map)
  then show ?thesis by (auto simp: candidate_keys_def)
qed

lemma mcand_flags_present: "mcand r \<Longrightarrow> set flag_names \<subseteq> fst ` set r"
  by (auto simp: mcand_def dest: cand_flags_present)

lemma mcand_record_key:
  "mcand r \<Longrightarrow> \<exists>p i. record_key r = Inr (PStr p, PStr i) \<and> PStr p \<in> set managed_provider_ids
     \<and> map_of r ''providerId'' = Some (PStr p) \<and> map_of r ''id'' = Some (PStr i)"
  by (auto simp: mcand_def cand_def record_key_def)

lemma merge_loop_char:
  "\<forall>f \<in> set fs. mcand f \<Longrightarrow>
   \<exists>out. merge_loop refresh fs ex = Inr out \<and> length out = length fs \<and>
     (\<forall>n < length fs. \<forall>k. record_key (fs ! n) = Inr k \<longrightarrow>
        (case ex k of
           Some prior \<Rightarrow>
             if \<forall>j < n. record_key (fs ! j) \<noteq> Inr k
             then merge_flags refresh prior (fs ! n) flag_names (fs ! n) = Inr (out ! n)
             else out ! n = fs ! n
         | None \<Rightarrow> out ! n = fs ! n))"
proof (induction fs arbitrary: ex)
  case Nil
  then show ?case by simp
next
  case (Cons f fs)
  have mf: "mcand f" and mfs: "\<forall>f \<in> set fs. mcand f" using Cons.prems by auto
  obtain p i where key: "record_key f = Inr (PStr p, PStr i)"
    and pf: "map_of f ''providerId'' = Some (PStr p)" and idf: "map_of f ''id'' = Some (PStr i)"
    using mcand_record_key [OF mf] by blast
  let ?k0 = "(PStr p, PStr i)"
  show ?case
  proof (cases "ex ?k0")
    case None
    from Cons.IH [OF mfs, of ex] obtain rest where
      r: "merge_loop refresh fs ex = Inr rest" "length rest = length fs"
      and rn: "\<forall>n < length fs. \<forall>k. record_key (fs ! n) = Inr k \<longrightarrow>
        (case ex k of
           Some prior \<Rightarrow>
             if \<forall>j < n. record_key (fs ! j) \<noteq> Inr k
             then merge_flags refresh prior (fs ! n) flag_names (fs ! n) = Inr (rest ! n)
             else rest ! n = fs ! n
         | None \<Rightarrow> rest ! n = fs ! n)"
      by blast
    have run: "merge_loop refresh (f # fs) ex = Inr (f # rest)"
      using None pf idf r(1) by simp
    have "(case ex k of
           Some prior \<Rightarrow>
             if \<forall>j < n. record_key ((f # fs) ! j) \<noteq> Inr k
             then merge_flags refresh prior ((f # fs) ! n) flag_names ((f # fs) ! n)
                    = Inr ((f # rest) ! n)
             else (f # rest) ! n = (f # fs) ! n
         | None \<Rightarrow> (f # rest) ! n = (f # fs) ! n)"
      if n: "n < length (f # fs)" and k: "record_key ((f # fs) ! n) = Inr k" for n k
    proof (cases n)
      case 0
      then show ?thesis using k key None by simp
    next
      case (Suc m)
      then have m: "m < length fs" and km: "record_key (fs ! m) = Inr k" using n k by auto
      show ?thesis
      proof (cases "k = ?k0")
        case True
        have "rest ! m = fs ! m" using rn m km True None by auto
        then show ?thesis using None True Suc by simp
      next
        case False
        then have eq: "(\<forall>j < Suc m. record_key ((f # fs) ! j) \<noteq> Inr k)
                  = (\<forall>j < m. record_key (fs ! j) \<noteq> Inr k)"
          using key by (auto simp: All_less_Suc2)
        have inst: "(case ex k of
           Some prior \<Rightarrow>
             if \<forall>j < m. record_key (fs ! j) \<noteq> Inr k
             then merge_flags refresh prior (fs ! m) flag_names (fs ! m) = Inr (rest ! m)
             else rest ! m = fs ! m
         | None \<Rightarrow> rest ! m = fs ! m)"
          using rn m km by blast
        show ?thesis unfolding Suc using inst by (cases "ex k") (simp_all add: eq)
      qed
    qed
    then show ?thesis using run r(2) by auto
  next
    case (Some prior)
    obtain u where u: "merge_flags refresh prior f flag_names f = Inr u"
      using merge_flags_ok [OF mcand_flags_present [OF mf]] by blast
    let ?ex' = "ex(?k0 := None)"
    from Cons.IH [OF mfs, of ?ex'] obtain rest where
      r: "merge_loop refresh fs ?ex' = Inr rest" "length rest = length fs"
      and rn: "\<forall>n < length fs. \<forall>k. record_key (fs ! n) = Inr k \<longrightarrow>
        (case ?ex' k of
           Some prior \<Rightarrow>
             if \<forall>j < n. record_key (fs ! j) \<noteq> Inr k
             then merge_flags refresh prior (fs ! n) flag_names (fs ! n) = Inr (rest ! n)
             else rest ! n = fs ! n
         | None \<Rightarrow> rest ! n = fs ! n)"
      by blast
    have run: "merge_loop refresh (f # fs) ex = Inr (u # rest)"
      using Some pf idf r(1) u by simp
    have "(case ex k of
           Some prior \<Rightarrow>
             if \<forall>j < n. record_key ((f # fs) ! j) \<noteq> Inr k
             then merge_flags refresh prior ((f # fs) ! n) flag_names ((f # fs) ! n)
                    = Inr ((u # rest) ! n)
             else (u # rest) ! n = (f # fs) ! n
         | None \<Rightarrow> (u # rest) ! n = (f # fs) ! n)"
      if n: "n < length (f # fs)" and k: "record_key ((f # fs) ! n) = Inr k" for n k
    proof (cases n)
      case 0
      then show ?thesis using k key Some u by simp
    next
      case (Suc m)
      then have m: "m < length fs" and km: "record_key (fs ! m) = Inr k" using n k by auto
      show ?thesis
      proof (cases "k = ?k0")
        case True
        have "\<not> (\<forall>j < Suc m. record_key ((f # fs) ! j) \<noteq> Inr k)"
          using True key by auto
        moreover have "rest ! m = fs ! m" using rn m km True by auto
        ultimately show ?thesis using Some True Suc by auto
      next
        case False
        then have eq: "(\<forall>j < Suc m. record_key ((f # fs) ! j) \<noteq> Inr k)
                  = (\<forall>j < m. record_key (fs ! j) \<noteq> Inr k)"
          using key by (auto simp: All_less_Suc2)
        have exk: "?ex' k = ex k" using False by simp
        have inst: "(case ?ex' k of
           Some prior \<Rightarrow>
             if \<forall>j < m. record_key (fs ! j) \<noteq> Inr k
             then merge_flags refresh prior (fs ! m) flag_names (fs ! m) = Inr (rest ! m)
             else rest ! m = fs ! m
         | None \<Rightarrow> rest ! m = fs ! m)"
          using rn m km by blast
        show ?thesis unfolding Suc using inst unfolding exk by (cases "ex k") (simp_all add: eq)
      qed
    qed
    then show ?thesis using run r(2) by auto
  qed
qed

lemma merge_loop_values:
  assumes "\<forall>f \<in> set fs. mcand f" and "n < length fs" and "record_key (fs ! n) = Inr k"
  shows "\<exists>out. merge_loop refresh (fs) existing = Inr out \<and>
     length out = length (fs) \<and>
     (case existing k of
        Some prior \<Rightarrow>
          if \<forall>j < n. record_key (fs ! j) \<noteq> Inr k then
            map fst (out ! n) = map fst (fs ! n) \<and>
            (\<forall>x. map_of (out ! n) x =
               (if x \<in> set flag_names \<and> \<not> refresh \<and> x \<in> fst ` set prior
                then map_of prior x else map_of (fs ! n) x))
          else out ! n = fs ! n
      | None \<Rightarrow> out ! n = fs ! n)"
proof -
  let ?fs = "fs"
  have mc: "\<forall>f \<in> set ?fs. mcand f" using assms(1) by blast
  from merge_loop_char [OF mc, of refresh existing] obtain out where
    run: "merge_loop refresh ?fs existing = Inr out" and len: "length out = length ?fs"
    and ch: "\<forall>n < length ?fs. \<forall>k. record_key (?fs ! n) = Inr k \<longrightarrow>
        (case existing k of
           Some prior \<Rightarrow>
             if \<forall>j < n. record_key (?fs ! j) \<noteq> Inr k
             then merge_flags refresh prior (?fs ! n) flag_names (?fs ! n) = Inr (out ! n)
             else out ! n = ?fs ! n
         | None \<Rightarrow> out ! n = ?fs ! n)"
    by blast
  have inst: "(case existing k of
           Some prior \<Rightarrow>
             if \<forall>j < n. record_key (?fs ! j) \<noteq> Inr k
             then merge_flags refresh prior (?fs ! n) flag_names (?fs ! n) = Inr (out ! n)
             else out ! n = ?fs ! n
         | None \<Rightarrow> out ! n = ?fs ! n)"
    using ch assms(2,3) by blast
  have fl: "set flag_names \<subseteq> fst ` set (?fs ! n)"
    using mc assms(2) mcand_flags_present by simp
  have "(case existing k of
        Some prior \<Rightarrow>
          if \<forall>j < n. record_key (?fs ! j) \<noteq> Inr k then
            map fst (out ! n) = map fst (?fs ! n) \<and>
            (\<forall>x. map_of (out ! n) x =
               (if x \<in> set flag_names \<and> \<not> refresh \<and> x \<in> fst ` set prior
                then map_of prior x else map_of (?fs ! n) x))
          else out ! n = ?fs ! n
      | None \<Rightarrow> out ! n = ?fs ! n)"
  proof (cases "existing k")
    case None
    then show ?thesis using inst by simp
  next
    case (Some prior)
    show ?thesis
    proof (cases "\<forall>j < n. record_key (?fs ! j) \<noteq> Inr k")
      case True
      then have m: "merge_flags refresh prior (?fs ! n) flag_names (?fs ! n) = Inr (out ! n)"
        using inst Some by simp
      from merge_flags_ok [OF fl, of refresh prior "?fs ! n"] m
      show ?thesis using Some True by auto
    next
      case False
      then show ?thesis using inst Some by auto
    qed
  qed
  then show ?thesis using run len by blast
qed

text \<open>
  Claim C1, amended for repeated keys. Take the \<open>n\<close>-th fetched candidate, with key \<open>k\<close>. The
  merge loop returns a list as long as the fetched list. If the existing managed set has a
  record under \<open>k\<close> and no earlier candidate has key \<open>k\<close>, the \<open>n\<close>-th merged record has the
  fields of the candidate in the candidate's order, and the value of a field is the existing
  record's when the field is one of the six flags, refresh is off and the existing record
  defines it, and the candidate's otherwise (so \<open>name\<close>, \<open>provider\<close> and every flag the
  existing record lacks come from the fetch). Every other candidate is kept as it is.
\<close>

theorem merge_loop_preserves_or_refreshes:
  assumes "n < length (all_fetched_api_models e)"
    and "record_key (all_fetched_api_models e ! n) = Inr k"
  shows "\<exists>out. merge_loop refresh (all_fetched_api_models e) existing = Inr out \<and>
     length out = length (all_fetched_api_models e) \<and>
     (case existing k of
        Some prior \<Rightarrow>
          if \<forall>j < n. record_key (all_fetched_api_models e ! j) \<noteq> Inr k then
            map fst (out ! n) = map fst (all_fetched_api_models e ! n) \<and>
            (\<forall>x. map_of (out ! n) x =
               (if x \<in> set flag_names \<and> \<not> refresh \<and> x \<in> fst ` set prior
                then map_of prior x else map_of (all_fetched_api_models e ! n) x))
          else out ! n = all_fetched_api_models e ! n
      | None \<Rightarrow> out ! n = all_fetched_api_models e ! n)"
proof -
  have "\<forall>f \<in> set (all_fetched_api_models e). mcand f" using all_fetched_mcand by blast
  from merge_loop_values [OF this assms] show ?thesis .
qed

theorem merge_loop_preserves_or_refreshes_witness:
  "0 < length (all_fetched_api_models env_duplicate) \<and>
   record_key (all_fetched_api_models env_duplicate ! 0) = Inr (PStr ''openai'', PStr ''gpt-4o'') \<and>
   (\<exists>out. merge_loop False (all_fetched_api_models env_duplicate)
            (Map.empty((PStr ''openai'', PStr ''gpt-4o'') \<mapsto> prior_gpt4o)) = Inr out \<and>
      length out = 2 \<and>
      map_of (out ! 0) ''multiModal'' = Some (PBool False) \<and>
      map_of (out ! 0) ''canSearch'' = Some (PBool True) \<and>
      map_of (out ! 0) ''isAdvancedReasoner'' = Some (PBool True) \<and>
      map_of (out ! 0) ''name'' = Some (PStr ''GPT 4O''))"
proof -
  have a: "0 < length (all_fetched_api_models env_duplicate)" by code_simp
  have b: "record_key (all_fetched_api_models env_duplicate ! 0)
             = Inr (PStr ''openai'', PStr ''gpt-4o'')" by code_simp
  have c: "length (all_fetched_api_models env_duplicate) = 2" by code_simp
  have d: "map_of (all_fetched_api_models env_duplicate ! 0) ''isAdvancedReasoner''
             = Some (PBool True)" by code_simp
  have d': "map_of (all_fetched_api_models env_duplicate ! 0) ''name''
             = Some (PStr ''GPT 4O'')" by code_simp
  have f: "map_of prior_gpt4o ''multiModal'' = Some (PBool False)"
    "map_of prior_gpt4o ''canSearch'' = Some (PBool True)"
    "fst ` set prior_gpt4o = {''id'', ''provider'', ''providerId'', ''name'', ''multiModal'',
        ''canSearch''}"
    by (simp_all add: prior_gpt4o_def) 
  from merge_loop_preserves_or_refreshes [OF a b, of False
      "Map.empty((PStr ''openai'', PStr ''gpt-4o'') \<mapsto> prior_gpt4o)"]
  obtain out where
    o: "merge_loop False (all_fetched_api_models env_duplicate)
            (Map.empty((PStr ''openai'', PStr ''gpt-4o'') \<mapsto> prior_gpt4o)) = Inr out"
       "length out = length (all_fetched_api_models env_duplicate)"
       "\<forall>x. map_of (out ! 0) x =
               (if x \<in> set flag_names \<and> x \<in> fst ` set prior_gpt4o
                then map_of prior_gpt4o x
                else map_of (all_fetched_api_models env_duplicate ! 0) x)"
    by auto
  have "map_of (out ! 0) ''multiModal'' = Some (PBool False)"
    "map_of (out ! 0) ''canSearch'' = Some (PBool True)"
    "map_of (out ! 0) ''isAdvancedReasoner'' = Some (PBool True)"
    "map_of (out ! 0) ''name'' = Some (PStr ''GPT 4O'')"
    using o(3) d d' f by (simp_all add: flag_names_def)
  then show ?thesis using a b c o(1,2) by simp
qed

text \<open>
  Claim C1 as stated fails when the fetch lists an id twice: the key of the second candidate
  is in the existing managed set, refresh is off and the existing record defines
  \<open>multiModal\<close> as false, yet the second merged record carries the classifier's value.
\<close>

theorem merge_loop_duplicate_counterexample:
  "refresh_caps env_duplicate = False \<and>
   projr (existing_managed_models [PDict prior_gpt4o] Map.empty)
       (PStr ''openai'', PStr ''gpt-4o'') = Some prior_gpt4o \<and>
   map_of prior_gpt4o ''multiModal'' = Some (PBool False) \<and>
   record_key (all_fetched_api_models env_duplicate ! 1) = Inr (PStr ''openai'', PStr ''gpt-4o'') \<and>
   \<not> isl (merge_loop False (all_fetched_api_models env_duplicate)
            (projr (existing_managed_models [PDict prior_gpt4o] Map.empty))) \<and>
   map_of (projr (merge_loop False (all_fetched_api_models env_duplicate)
            (projr (existing_managed_models [PDict prior_gpt4o] Map.empty))) ! 1) ''multiModal''
     = Some (PBool True)"
  by code_simp

section \<open>What the merge and the probe leave alone\<close>












section \<open>Partition and sort\<close>












section \<open>The output of a run\<close>




























section \<open>Normalisation in the output\<close>








section \<open>When the run returns\<close>







section \<open>Running again on the output\<close>

















end
